theory Spec2Isabelle
  imports
    Main
    "HOL-Library.Word"
    "HOL-Library.Char_ord"
    "HOL-Library.List_Lexorder"
begin

section \<open>livegrep-gitlab-reindex: discovery, filter and index specification\<close>

text \<open>
  A shallow embedding of \<^verbatim>\<open>cmd/livegrep-gitlab-reindex/main.go\<close>. Go strings are byte
  strings (\<^typ>\<open>string\<close>), compared with \<open><\<close> byte by byte: the order on
  \<^typ>\<open>char list\<close> used below is the lexicographic one over the byte values.
  Go errors are values of \<open>go_error\<close>; a function returning \<open>(T, error)\<close> returns
  \<open>go_error + T\<close>. A pointer that may be \<open>nil\<close> is an \<open>option\<close>.
\<close>

subsection \<open>Data model\<close>

datatype go_error = Err string

text \<open>
  The request options and the response of the listing calls of \<^verbatim>\<open>go-gitlab\<close>, with
  the fields the program sets or reads. \<^verbatim>\<open>ListOptions\<close> is embedded in both option
  structs; \<open>Archived\<close> is a \<^verbatim>\<open>*bool\<close>.
\<close>

record ListOptions =
  Page :: int
  PerPage :: int

record ListGroupProjectsOptions = ListOptions +
  Archived :: "bool option"

record ListProjectsOptions = ListOptions +
  Archived :: "bool option"

record Response =
  NextPage :: int

text \<open>The fields of \<^verbatim>\<open>gitlab.Project\<close> and \<^verbatim>\<open>gitlab.ForkParent\<close> that the program reads
  (and \<open>Archived\<close>, which it never reads).\<close>

record ForkParent =
  PathWithNamespace :: string

record Project =
  PathWithNamespace :: string
  SSHURLToRepo :: string
  HTTPURLToRepo :: string
  WebURL :: string
  ForkedFromProject :: "ForkParent option"
  Archived :: bool

text \<open>The two descriptors of the specification's scenarios: a repository and a fork.\<close>

definition teamA_svc :: Project where
  "teamA_svc = \<lparr>PathWithNamespace = ''teamA/svc'',
     SSHURLToRepo = ''git@gitlab.example.com:teamA/svc.git'',
     HTTPURLToRepo = ''https://gitlab.example.com/teamA/svc.git'',
     WebURL = ''https://gitlab.example.com/teamA/svc'',
     ForkedFromProject = None, Archived = False\<rparr>"

definition teamA_legacy :: Project where
  "teamA_legacy = \<lparr>PathWithNamespace = ''teamA/legacy'',
     SSHURLToRepo = ''git@gitlab.example.com:teamA/legacy.git'',
     HTTPURLToRepo = ''https://gitlab.example.com/teamA/legacy.git'',
     WebURL = ''https://gitlab.example.com/teamA/legacy'',
     ForkedFromProject = Some \<lparr>ForkParent.PathWithNamespace = ''teamA/base''\<rparr>,
     Archived = True\<rparr>"

text \<open>
  The index specification of \<^verbatim>\<open>proto/config\<close>, whose declaration is not among the
  sources: the fields are those that \<^verbatim>\<open>buildConfig\<close> sets, with the types its composite
  literals give them. \<open>Metadata\<close> and \<open>CloneOptions\<close> of a \<open>RepoSpec\<close> are pointers;
  \<open>Depth\<close> is an \<^verbatim>\<open>int32\<close>.
\<close>

record Metadata =
  Github :: string
  Remote :: string
  UrlPattern :: string

record CloneOptions =
  Depth :: "32 word"
  Username :: string
  PasswordEnv :: string

record RepoSpec =
  Path :: string
  Name :: string
  Revisions :: "string list"
  Metadata :: "Metadata option"
  CloneOptions :: "CloneOptions option"

record IndexSpec =
  Name :: string
  Repositories :: "RepoSpec list"

text \<open>
  What the program calls outside itself. The two listing services of a client
  (\<^verbatim>\<open>client.Groups.ListGroupProjects\<close>, \<^verbatim>\<open>client.Projects.ListProjects\<close>) are requests
  over the network, sent again and again in a loop: the service may answer the same
  request differently from one call to the next. So a listing call takes, before the
  arguments the program passes, the number of requests the client has sent before this
  one; any sequence of answers, to any sequence of requests, is the run of such a client.
  The same holds for the run of \<^verbatim>\<open>git --git-dir D rev-parse --verify R\<close>, once for each
  repository in the loop of \<^verbatim>\<open>buildConfig\<close>: it takes the number of runs before this one,
  and is \<open>True\<close> when \<^verbatim>\<open>cmd.Run()\<close> returns no error.
  The calls the program makes once, \<^verbatim>\<open>ioutil.ReadFile\<close> and \<^verbatim>\<open>gitlab.NewClient\<close> (token,
  base URL), are functions of their arguments, and so is \<^verbatim>\<open>json.MarshalIndent(cfg, "", "  ")\<close>,
  whose text depends on the tags of the generated structs, which are not part of the
  program.
\<close>

record Client =
  ListGroupProjects ::
    "nat \<Rightarrow> string \<Rightarrow> ListGroupProjectsOptions \<Rightarrow> go_error + Project list \<times> Response"
  ListProjects :: "nat \<Rightarrow> ListProjectsOptions \<Rightarrow> go_error + Project list \<times> Response"

record world =
  ReadFile :: "string \<Rightarrow> go_error + string"
  NewClient :: "string \<Rightarrow> string \<Rightarrow> go_error + Client"
  gitRevParseVerify :: "nat \<Rightarrow> string \<Rightarrow> string \<Rightarrow> bool"
  jsonMarshalIndent :: "IndexSpec \<Rightarrow> go_error + string"

text \<open>The command-line flags, which the Go code reads from package-level variables.\<close>

record flags =
  flagApiBaseUrl :: string
  flagGitlabToken :: string
  flagRepoDir :: string
  flagIgnorelist :: string
  flagRevision :: string
  flagUrlPattern :: string
  flagName :: string
  flagForks :: bool
  flagArchived :: bool
  flagHTTP :: bool
  flagHTTPUsername :: string
  flagDepth :: "64 word"
  flagSkipMissing :: bool
  flagGroups :: "string list"

subsection \<open>filterRepos\<close>

text \<open>
  The loop of \<^verbatim>\<open>filterRepos\<close>, one equation per iteration. The state is the slice \<open>out\<close>
  and the lines written by \<^verbatim>\<open>log.Printf\<close>. The ignore list is a
  \<^verbatim>\<open>map[string]struct{}\<close>, \<open>None\<close> when the map is \<open>nil\<close>. The parameter
  \<open>excludeArchived\<close> is passed along as in the source, which never reads it.
\<close>

fun filterRepos_loop ::
  "Project list \<Rightarrow> (string \<rightharpoonup> unit) option \<Rightarrow> bool \<Rightarrow> bool \<Rightarrow>
   Project list \<times> string list \<Rightarrow> Project list \<times> string list" where
  "filterRepos_loop [] ignorelist excludeForks excludeArchived (out, logged) = (out, logged)"
| "filterRepos_loop (r # repos) ignorelist excludeForks excludeArchived (out, logged) =
     (case (if excludeForks then ForkedFromProject r else None) of
        Some parent \<Rightarrow>
          filterRepos_loop repos ignorelist excludeForks excludeArchived
            (out, logged @ [''Excluding fork '' @ PathWithNamespace r @
                            '', was forked from '' @ ForkParent.PathWithNamespace parent])
      | None \<Rightarrow>
          (case ignorelist of
             None \<Rightarrow>
               filterRepos_loop repos ignorelist excludeForks excludeArchived (out @ [r], logged)
           | Some m \<Rightarrow>
               (case m (PathWithNamespace r) of
                  Some ok \<Rightarrow>
                    filterRepos_loop repos ignorelist excludeForks excludeArchived (out, logged)
                | None \<Rightarrow>
                    filterRepos_loop repos ignorelist excludeForks excludeArchived
                      (out @ [r], logged))))"

definition filterRepos_run ::
  "Project list \<Rightarrow> (string \<rightharpoonup> unit) option \<Rightarrow> bool \<Rightarrow> bool \<Rightarrow> Project list \<times> string list" where
  "filterRepos_run repos ignorelist excludeForks excludeArchived =
     filterRepos_loop repos ignorelist excludeForks excludeArchived ([], [])"

text \<open>The value \<^verbatim>\<open>filterRepos\<close> returns.\<close>

definition filterRepos ::
  "Project list \<Rightarrow> (string \<rightharpoonup> unit) option \<Rightarrow> bool \<Rightarrow> bool \<Rightarrow> Project list" where
  "filterRepos repos ignorelist excludeForks excludeArchived =
     fst (filterRepos_run repos ignorelist excludeForks excludeArchived)"

text \<open>The two reasons for which an iteration reaches \<^verbatim>\<open>continue\<close>.\<close>

definition isExcludedFork :: "bool \<Rightarrow> Project \<Rightarrow> bool" where
  "isExcludedFork excludeForks r = (excludeForks \<and> ForkedFromProject r \<noteq> None)"

definition isIgnored :: "(string \<rightharpoonup> unit) option \<Rightarrow> Project \<Rightarrow> bool" where
  "isIgnored ignorelist r =
     (case ignorelist of None \<Rightarrow> False | Some m \<Rightarrow> m (PathWithNamespace r) \<noteq> None)"

text \<open>The lines one iteration logs.\<close>

definition forkLogLines :: "bool \<Rightarrow> Project \<Rightarrow> string list" where
  "forkLogLines excludeForks r =
     (case (if excludeForks then ForkedFromProject r else None) of
        Some parent \<Rightarrow>
          [''Excluding fork '' @ PathWithNamespace r @
           '', was forked from '' @ ForkParent.PathWithNamespace parent]
      | None \<Rightarrow> [])"

subsection \<open>Properties of filterRepos\<close>

lemma filterRepos_loop_step:
  "filterRepos_loop (r # repos) ignorelist excludeForks excludeArchived (out, logged) =
     filterRepos_loop repos ignorelist excludeForks excludeArchived
       (out @ (if \<not> isExcludedFork excludeForks r \<and> \<not> isIgnored ignorelist r then [r] else []),
        logged @ forkLogLines excludeForks r)"
  by (simp add: isExcludedFork_def isIgnored_def forkLogLines_def split: option.splits)

lemma filterRepos_loop_eq:
  "filterRepos_loop repos ignorelist excludeForks excludeArchived (out, logged) =
     (out @ filter (\<lambda>r. \<not> isExcludedFork excludeForks r \<and> \<not> isIgnored ignorelist r) repos,
      logged @ concat (map (forkLogLines excludeForks) repos))"
proof (induction repos arbitrary: out logged)
  case Nil
  show ?case by simp
next
  case (Cons r repos)
  show ?case
    unfolding filterRepos_loop_step Cons.IH by simp
qed

lemma filterRepos_run_eq:
  "filterRepos_run repos ignorelist excludeForks excludeArchived =
     (filter (\<lambda>r. \<not> isExcludedFork excludeForks r \<and> \<not> isIgnored ignorelist r) repos,
      concat (map (forkLogLines excludeForks) repos))"
  by (simp add: filterRepos_run_def filterRepos_loop_eq)

lemma filterRepos_filter:
  "filterRepos repos ignorelist excludeForks excludeArchived =
     filter (\<lambda>r. \<not> isExcludedFork excludeForks r \<and> \<not> isIgnored ignorelist r) repos"
  by (simp add: filterRepos_def filterRepos_run_eq)

text \<open>
  Claim C1. Whatever the ignore set and the descriptors, no descriptor of the filter's
  output has a namespace-qualified path that is a key of the ignore set.
\<close>

theorem filterRepos_avoids_ignorelist:
  "\<forall>r \<in> set (filterRepos repos (Some ignoreSet) excludeForks excludeArchived).
     PathWithNamespace r \<notin> dom ignoreSet"
  by (auto simp: filterRepos_filter isIgnored_def)

theorem filterRepos_avoids_ignorelist_witness:
  "filterRepos [teamA_svc, teamA_legacy] (Some [''teamA/svc'' \<mapsto> ()]) False True =
     [teamA_legacy]
   \<and> PathWithNamespace teamA_legacy \<notin> dom [''teamA/svc'' \<mapsto> ()]"
proof -
  have out: "filterRepos [teamA_svc, teamA_legacy] (Some [''teamA/svc'' \<mapsto> ()]) False True
             = [teamA_legacy]"
    by (simp add: filterRepos_def filterRepos_run_def teamA_svc_def teamA_legacy_def)
  show ?thesis
    using filterRepos_avoids_ignorelist
      [of "[teamA_svc, teamA_legacy]" "[''teamA/svc'' \<mapsto> ()]" False True]
    unfolding out by simp
qed

text \<open>
  Claim C5. With exclude-forks set, a descriptor that carries a fork-parent reference is
  not in the filter's output, whether or not its path is in the ignore set (and whether
  or not there is an ignore set).
\<close>

theorem filterRepos_excludes_forks:
  "ForkedFromProject r \<noteq> None \<Longrightarrow>
     r \<notin> set (filterRepos repos ignorelist True excludeArchived)"
  by (simp add: filterRepos_filter isExcludedFork_def)

theorem filterRepos_excludes_forks_witness:
  "ForkedFromProject teamA_legacy \<noteq> None
   \<and> teamA_legacy \<notin> set (filterRepos [teamA_svc, teamA_legacy]
                              (Some [''teamA/legacy'' \<mapsto> ()]) True True)
   \<and> teamA_legacy \<notin> set (filterRepos [teamA_svc, teamA_legacy] None True True)
   \<and> filterRepos_run [teamA_svc, teamA_legacy] None True True =
       ([teamA_svc], [''Excluding fork teamA/legacy, was forked from teamA/base''])"
proof -
  have fork: "ForkedFromProject teamA_legacy \<noteq> None"
    by (simp add: teamA_legacy_def)
  have run: "filterRepos_run [teamA_svc, teamA_legacy] None True True =
       ([teamA_svc], [''Excluding fork teamA/legacy, was forked from teamA/base''])"
    by (simp add: filterRepos_run_def teamA_svc_def teamA_legacy_def)
  show ?thesis
    using fork run
      filterRepos_excludes_forks [OF fork, of "[teamA_svc, teamA_legacy]"
         "Some [''teamA/legacy'' \<mapsto> ()]" True]
      filterRepos_excludes_forks [OF fork, of "[teamA_svc, teamA_legacy]" None True]
    by simp
qed

text \<open>
  Claim C7. The filter's result, the log lines included, is the same for both values of
  exclude-archived, and the filter does not look at the archived status of a descriptor:
  changing the \<open>Archived\<close> fields of the input changes nothing but those fields in the
  output.
\<close>

theorem filterRepos_ignores_archived:
  "filterRepos_run repos ignorelist excludeForks True =
     filterRepos_run repos ignorelist excludeForks False
   \<and> filterRepos repos ignorelist excludeForks True =
     filterRepos repos ignorelist excludeForks False
   \<and> filterRepos (map (Project.Archived_update f) repos) ignorelist excludeForks excludeArchived =
     map (Project.Archived_update f) (filterRepos repos ignorelist excludeForks excludeArchived)"
proof -
  have "filter (\<lambda>r. \<not> isExcludedFork excludeForks r \<and> \<not> isIgnored ignorelist r)
          (map (Project.Archived_update f) repos) =
        map (Project.Archived_update f)
          (filter (\<lambda>r. \<not> isExcludedFork excludeForks r \<and> \<not> isIgnored ignorelist r) repos)"
    by (induction repos) (auto simp: isExcludedFork_def isIgnored_def split: option.splits)
  then show ?thesis
    by (simp add: filterRepos_filter filterRepos_run_eq)
qed

theorem filterRepos_ignores_archived_witness:
  "filterRepos [teamA_svc, teamA_legacy] None False True = [teamA_svc, teamA_legacy]
   \<and> filterRepos [teamA_svc, teamA_legacy] None False False = [teamA_svc, teamA_legacy]
   \<and> Project.Archived teamA_legacy"
proof -
  have "filterRepos [teamA_svc, teamA_legacy] None False False = [teamA_svc, teamA_legacy]"
    by (simp add: filterRepos_def filterRepos_run_def)
  then show ?thesis
    using filterRepos_ignores_archived [of "[teamA_svc, teamA_legacy]" None False id True]
    by (simp add: teamA_legacy_def)
qed

subsection \<open>loadIgnorelist\<close>

text \<open>
  \<^verbatim>\<open>strings.Split(s, sep)\<close> for a separator of one byte, which is how the program calls
  it (\<^verbatim>\<open>"\n"\<close>): the pieces of \<open>s\<close> between the occurrences of the separator, one
  more piece than there are occurrences.
\<close>

fun strings_Split :: "string \<Rightarrow> char \<Rightarrow> string list" where
  "strings_Split [] sep = [[]]"
| "strings_Split (c # s) sep =
     (if c = sep then [] # strings_Split s sep
      else (case strings_Split s sep of
              [] \<Rightarrow> [[c]]
            | l # ls \<Rightarrow> (c # l) # ls))"

text \<open>
  \<^verbatim>\<open>loadIgnorelist\<close>: the error of \<^verbatim>\<open>ReadFile\<close> is returned as it is; otherwise every
  line becomes a key of the map, in the order of the \<^verbatim>\<open>range\<close> loop.
\<close>

definition loadIgnorelist :: "world \<Rightarrow> string \<Rightarrow> go_error + (string \<rightharpoonup> unit)" where
  "loadIgnorelist w path =
     (case ReadFile w path of
        Inl err \<Rightarrow> Inl err
      | Inr data \<Rightarrow>
          let lines = strings_Split data CHR ''\<newline>'' in
          Inr (foldl (\<lambda>out l. out(l \<mapsto> ())) Map.empty lines))"

text \<open>
  The specification's reading of the file, to compare \<^verbatim>\<open>loadIgnorelist\<close> with: \<open>ls\<close>
  are the lines of \<open>data\<close> when no line holds a newline and the lines, put back
  together with one newline between neighbours (\<^verbatim>\<open>strings.Join\<close>), are \<open>data\<close> byte for
  byte.
\<close>

fun strings_Join :: "string list \<Rightarrow> string \<Rightarrow> string" where
  "strings_Join [] sep = []"
| "strings_Join [l] sep = l"
| "strings_Join (l # ls) sep = l @ sep @ strings_Join ls sep"

definition linesOfFile :: "string list \<Rightarrow> string \<Rightarrow> bool" where
  "linesOfFile ls data =
     (ls \<noteq> [] \<and> list_all (\<lambda>l. CHR ''\<newline>'' \<notin> set l) ls \<and>
      strings_Join ls ''\<newline>'' = data)"

subsection \<open>json.MarshalIndent, for the examples\<close>

text \<open>
  Modelled from the spec: the serializer, whose text depends on the field tags of the
  generated structs of \<^verbatim>\<open>proto/config\<close>, which are not among the sources. The
  specification asks for a two-space-indented structured text of the \<open>IndexSpec\<close>.
  The renderer below is used in the examples only; it writes what
  \<^verbatim>\<open>json.MarshalIndent(cfg, "", "  ")\<close> writes when the strings are valid UTF-8 and every
  field is tagged with its \<^verbatim>\<open>snake_case\<close> name and \<^verbatim>\<open>omitempty\<close>: an empty string, a zero
  depth, an empty slice and a \<open>nil\<close> pointer are left out. In a string, the quote and
  the backslash get a backslash, newline, carriage return and tab their letter, and the
  other control characters and \<^verbatim>\<open><\<close>, \<^verbatim>\<open>>\<close>, \<^verbatim>\<open>&\<close> the form \<^verbatim>\<open>\u00XX\<close>.
\<close>

definition json_hex :: "nat \<Rightarrow> char" where
  "json_hex n = ''0123456789abcdef'' ! n"

definition json_escape :: "char \<Rightarrow> string" where
  "json_escape c =
     (if c = CHR 0x22 then [CHR 0x5C, CHR 0x22]
      else if c = CHR 0x5C then [CHR 0x5C, CHR 0x5C]
      else if c = CHR ''\<newline>'' then [CHR 0x5C, CHR ''n'']
      else if c = CHR 0x0D then [CHR 0x5C, CHR ''r'']
      else if c = CHR 0x09 then [CHR 0x5C, CHR ''t'']
      else if (of_char c :: nat) < 0x20 \<or> c = CHR ''<'' \<or> c = CHR ''>'' \<or> c = CHR ''&'' then
        [CHR 0x5C, CHR ''u'', CHR ''0'', CHR ''0'',
         json_hex (of_char c div 16), json_hex (of_char c mod 16)]
      else [c])"

definition json_string :: "string \<Rightarrow> string" where
  "json_string s = [CHR 0x22] @ concat (map json_escape s) @ [CHR 0x22]"

fun json_nat :: "nat \<Rightarrow> string" where
  "json_nat n =
     (if n < 10 then [json_hex n] else json_nat (n div 10) @ [json_hex (n mod 10)])"

definition json_int :: "int \<Rightarrow> string" where
  "json_int i = (if i < 0 then ''-'' @ json_nat (nat (- i)) else json_nat (nat i))"

definition json_indent :: "nat \<Rightarrow> string" where
  "json_indent n = replicate (2 * n) CHR '' ''"

definition json_object :: "nat \<Rightarrow> (string \<times> string) list \<Rightarrow> string" where
  "json_object n members =
     (if members = [] then ''{}''
      else ''{\<newline>'' @
           strings_Join
             (map (\<lambda>(key, v). json_indent (n + 1) @ json_string key @ '': '' @ v) members)
             '',\<newline>'' @
           ''\<newline>'' @ json_indent n @ ''}'')"

definition json_array :: "nat \<Rightarrow> string list \<Rightarrow> string" where
  "json_array n items =
     (if items = [] then ''[]''
      else ''[\<newline>'' @
           strings_Join (map (\<lambda>v. json_indent (n + 1) @ v) items) '',\<newline>'' @
           ''\<newline>'' @ json_indent n @ '']'')"

definition omitempty :: "bool \<Rightarrow> string \<Rightarrow> string \<Rightarrow> (string \<times> string) list" where
  "omitempty isEmpty key v = (if isEmpty then [] else [(key, v)])"

definition json_Metadata :: "nat \<Rightarrow> Metadata \<Rightarrow> string" where
  "json_Metadata n m =
     json_object n
       (omitempty (UrlPattern m = '''') ''url_pattern'' (json_string (UrlPattern m)) @
        omitempty (Remote m = '''') ''remote'' (json_string (Remote m)) @
        omitempty (Github m = '''') ''github'' (json_string (Github m)))"

definition json_CloneOptions :: "nat \<Rightarrow> CloneOptions \<Rightarrow> string" where
  "json_CloneOptions n c =
     json_object n
       (omitempty (Depth c = 0) ''depth'' (json_int (sint (Depth c))) @
        omitempty (Username c = '''') ''username'' (json_string (Username c)) @
        omitempty (PasswordEnv c = '''') ''password_env'' (json_string (PasswordEnv c)))"

definition json_RepoSpec :: "nat \<Rightarrow> RepoSpec \<Rightarrow> string" where
  "json_RepoSpec n s =
     json_object n
       (omitempty (Path s = '''') ''path'' (json_string (Path s)) @
        omitempty (RepoSpec.Name s = '''') ''name'' (json_string (RepoSpec.Name s)) @
        omitempty (Revisions s = []) ''revisions''
          (json_array (n + 1) (map json_string (Revisions s))) @
        (case RepoSpec.Metadata s of
           None \<Rightarrow> []
         | Some m \<Rightarrow> [(''metadata'', json_Metadata (n + 1) m)]) @
        (case RepoSpec.CloneOptions s of
           None \<Rightarrow> []
         | Some c \<Rightarrow> [(''clone_options'', json_CloneOptions (n + 1) c)]))"

definition json_IndexSpec :: "IndexSpec \<Rightarrow> string" where
  "json_IndexSpec cfg =
     json_object 0
       (omitempty (IndexSpec.Name cfg = '''') ''name'' (json_string (IndexSpec.Name cfg)) @
        omitempty (Repositories cfg = []) ''repositories''
          (json_array 1 (map (json_RepoSpec 2) (Repositories cfg))))"

subsection \<open>Inputs for the examples of loadIgnorelist\<close>

text \<open>
  Inputs for the examples: a client whose listing calls fail, a world with one readable
  file, a descriptor without a path, a file with a carriage return and a leading blank,
  and the ignore set of the file \<^verbatim>\<open>"teamA/svc\n"\<close>.
\<close>

definition noServices :: Client where
  "noServices = \<lparr>ListGroupProjects = (\<lambda>calls group' opt. Inl (Err ''404 Group Not Found'')),
                  ListProjects = (\<lambda>calls opt. Inl (Err ''401 Unauthorized''))\<rparr>"

definition worldWithFile :: "string \<Rightarrow> string \<Rightarrow> world" where
  "worldWithFile name data =
     \<lparr>ReadFile = (\<lambda>path. if path = name then Inr data
                          else Inl (Err (''open '' @ path @ '': no such file or directory''))),
      NewClient = (\<lambda>token baseUrl. Inr noServices),
      gitRevParseVerify = (\<lambda>runs gitDir revision. True),
      jsonMarshalIndent = (\<lambda>cfg. Inr (json_IndexSpec cfg))\<rparr>"



definition crlfFile :: string where
  "crlfFile = ''teamA/svc'' @ [CHR 0x0D] @ ''\<newline> teamA/legacy\<newline>teamA/base''"

subsection \<open>Properties of loadIgnorelist\<close>

lemma strings_Split_nonempty: "strings_Split s sep \<noteq> []"
  by (induction s) (auto split: list.splits)

lemma strings_Split_no_sep: "l \<in> set (strings_Split s sep) \<Longrightarrow> sep \<notin> set l"
  by (induction s arbitrary: l) (auto split: list.splits if_splits)

lemma strings_Join_Cons:
  "ls \<noteq> [] \<Longrightarrow> strings_Join (l # ls) sep = l @ sep @ strings_Join ls sep"
  by (cases ls) simp_all

lemma strings_Join_Split: "strings_Join (strings_Split s sep) [sep] = s"
proof (induction s)
  case Nil
  show ?case by simp
next
  case (Cons c s)
  show ?case
  proof (cases "c = sep")
    case True
    with Cons show ?thesis
      by (simp add: strings_Join_Cons strings_Split_nonempty)
  next
    case False
    obtain l ls where sp: "strings_Split s sep = l # ls"
      using strings_Split_nonempty [of s sep] by (cases "strings_Split s sep") auto
    with Cons False show ?thesis
      by (cases ls) auto
  qed
qed

lemma strings_Split_Join:
  "ls \<noteq> [] \<Longrightarrow> \<forall>l \<in> set ls. sep \<notin> set l \<Longrightarrow> strings_Split (strings_Join ls [sep]) sep = ls"
proof (induction ls)
  case Nil
  then show ?case by simp
next
  case (Cons l ls)
  have piece: "sep \<notin> set l \<Longrightarrow> strings_Split (l @ sep # rest) sep = l # strings_Split rest sep"
    for rest
    by (induction l) auto
  have single: "sep \<notin> set l \<Longrightarrow> strings_Split l sep = [l]"
    by (induction l) auto
  show ?case
  proof (cases ls)
    case Nil
    with Cons.prems single show ?thesis by simp
  next
    case (Cons l' ls')
    with Cons.IH Cons.prems piece [of "strings_Join ls [sep]"] show ?thesis
      by simp
  qed
qed

text \<open>The lines of a file are what \<^verbatim>\<open>strings.Split\<close> returns, and nothing else is.\<close>

lemma linesOfFile_iff: "linesOfFile ls data \<longleftrightarrow> ls = strings_Split data CHR ''\<newline>''"
  unfolding linesOfFile_def list_all_iff
  using strings_Split_Join [of ls "CHR ''\<newline>''"]
    strings_Join_Split [of data "CHR ''\<newline>''"]
    strings_Split_nonempty [of data "CHR ''\<newline>''"]
    strings_Split_no_sep [of _ data "CHR ''\<newline>''"]
  by auto

lemma dom_foldl_upd: "dom (foldl (\<lambda>out l. out(l \<mapsto> ())) m ls) = dom m \<union> set ls"
  by (induction ls arbitrary: m) auto

lemma loadIgnorelist_dom:
  "ReadFile w path = Inr data \<Longrightarrow>
     \<exists>m. loadIgnorelist w path = Inr m \<and> dom m = set (strings_Split data CHR ''\<newline>'')"
  by (simp add: loadIgnorelist_def dom_foldl_upd)

lemma filterRepos_dom:
  "filterRepos repos (Some m) excludeForks excludeArchived =
     filter (\<lambda>r. \<not> isExcludedFork excludeForks r \<and> PathWithNamespace r \<notin> dom m) repos"
  by (simp add: filterRepos_filter isIgnored_def dom_def)

text \<open>
  Claim C10. When the file can be read, the loaded ignore set is exactly the set of the
  lines of the file, taken as they are (put back together with newlines they are the
  file, byte for byte), and the filter drops a descriptor for the ignore list exactly
  when its namespace-qualified path is one of these lines.
\<close>

theorem loadIgnorelist_lines_verbatim:
  assumes "ReadFile w path = Inr data" and "linesOfFile ls data"
  shows "\<exists>m. loadIgnorelist w path = Inr m \<and> dom m = set ls \<and>
           filterRepos repos (Some m) excludeForks excludeArchived =
             filter (\<lambda>r. \<not> isExcludedFork excludeForks r \<and> PathWithNamespace r \<notin> set ls) repos"
proof -
  from assms(2) have ls: "ls = strings_Split data CHR ''\<newline>''"
    by (simp add: linesOfFile_iff)
  from loadIgnorelist_dom [OF assms(1)] obtain m
    where m: "loadIgnorelist w path = Inr m" "dom m = set ls"
    unfolding ls by blast
  then show ?thesis
    by (simp add: filterRepos_dom)
qed

theorem loadIgnorelist_lines_verbatim_witness:
  "ReadFile (worldWithFile ''ignore.txt'' crlfFile) ''ignore.txt'' = Inr crlfFile
   \<and> linesOfFile [''teamA/svc'' @ [CHR 0x0D], '' teamA/legacy'', ''teamA/base''] crlfFile
   \<and> (\<exists>m. loadIgnorelist (worldWithFile ''ignore.txt'' crlfFile) ''ignore.txt'' = Inr m
          \<and> dom m = {''teamA/svc'' @ [CHR 0x0D], '' teamA/legacy'', ''teamA/base''}
          \<and> filterRepos [teamA_svc, teamA_legacy] (Some m) False True =
              [teamA_svc, teamA_legacy])"
proof -
  have rd: "ReadFile (worldWithFile ''ignore.txt'' crlfFile) ''ignore.txt'' = Inr crlfFile"
    by (simp add: worldWithFile_def)
  have ls: "linesOfFile [''teamA/svc'' @ [CHR 0x0D], '' teamA/legacy'', ''teamA/base''] crlfFile"
    by (simp add: linesOfFile_def crlfFile_def)
  show ?thesis
    using rd ls loadIgnorelist_lines_verbatim [OF rd ls, of "[teamA_svc, teamA_legacy]" False True]
    by (auto simp: teamA_svc_def teamA_legacy_def isExcludedFork_def)
qed




subsection \<open>loadRepos\<close>

text \<open>
  The two \<^verbatim>\<open>for { ... }\<close> loops of \<^verbatim>\<open>loadRepos\<close>. Every iteration sends a request over
  the network, so the loops carry \<open>calls\<close>, the number of requests the client has
  sent so far, and hand it to the listing call. Nothing bounds the number of pages a
  service announces, so a loop need not end: the result is \<open>None\<close> when it does not.
  The rest of the state of a loop is the request \<open>opt\<close>, whose \<open>Page\<close> is overwritten
  with the response's \<open>NextPage\<close>, and the slice \<open>projects\<close>. An error of the listing
  call is returned at once, without the projects (\<^verbatim>\<open>return nil, err\<close>).
\<close>

partial_function (option) listGroupProjects_loop ::
  "Client \<Rightarrow> string \<Rightarrow> ListGroupProjectsOptions \<Rightarrow> Project list \<Rightarrow> nat \<Rightarrow>
   (go_error + Project list \<times> nat) option" where
  "listGroupProjects_loop client group' opt projects calls =
     (case ListGroupProjects client calls group' opt of
        Inl err \<Rightarrow> Some (Inl err)
      | Inr (ps, resp) \<Rightarrow>
          if NextPage resp = 0 then Some (Inr (projects @ ps, calls + 1))
          else listGroupProjects_loop client group' (opt\<lparr>Page := NextPage resp\<rparr>)
                 (projects @ ps) (calls + 1))"

partial_function (option) listProjects_loop ::
  "Client \<Rightarrow> ListProjectsOptions \<Rightarrow> Project list \<Rightarrow> nat \<Rightarrow>
   (go_error + Project list \<times> nat) option" where
  "listProjects_loop client opt projects calls =
     (case ListProjects client calls opt of
        Inl err \<Rightarrow> Some (Inl err)
      | Inr (ps, resp) \<Rightarrow>
          if NextPage resp = 0 then Some (Inr (projects @ ps, calls + 1))
          else listProjects_loop client (opt\<lparr>Page := NextPage resp\<rparr>)
                 (projects @ ps) (calls + 1))"

text \<open>
  The loop over the groups: every group starts from a fresh request for page 1 with 100
  items a page and no \<open>Archived\<close> filter, and appends to the same slice.
\<close>

fun loadRepos_groups ::
  "Client \<Rightarrow> string list \<Rightarrow> Project list \<Rightarrow> nat \<Rightarrow> (go_error + Project list) option" where
  "loadRepos_groups client [] projects calls = Some (Inr projects)"
| "loadRepos_groups client (group' # groups) projects calls =
     (case listGroupProjects_loop client group'
             \<lparr>Page = 1, PerPage = 100, ListGroupProjectsOptions.Archived = None\<rparr>
             projects calls of
        None \<Rightarrow> None
      | Some (Inl err) \<Rightarrow> Some (Inl err)
      | Some (Inr (projects', calls')) \<Rightarrow> loadRepos_groups client groups projects' calls')"

text \<open>
  \<^verbatim>\<open>loadRepos\<close>, called with a client that has sent no request yet: the groups when
  there are any, otherwise every project the user has access to, with the \<open>Archived\<close>
  filter of the request set from the flag.
\<close>

definition loadRepos ::
  "flags \<Rightarrow> Client \<Rightarrow> string list \<Rightarrow> (go_error + Project list) option" where
  "loadRepos fl client groups =
     (if length groups > 0 then loadRepos_groups client groups [] 0
      else
        (case listProjects_loop client
                \<lparr>Page = 1, PerPage = 100,
                 ListProjectsOptions.Archived = Some (flagArchived fl)\<rparr> [] 0 of
           None \<Rightarrow> None
         | Some (Inl err) \<Rightarrow> Some (Inl err)
         | Some (Inr (projects, calls)) \<Rightarrow> Some (Inr projects)))"

text \<open>
  The listing service as the specification sees it: the answer of the service when the
  \<open>n\<close>-th request it receives (counting from 0) asks for page \<open>p\<close> of a group, or
  of all accessible projects.
\<close>

definition groupPage ::
  "Client \<Rightarrow> string \<Rightarrow> nat \<Rightarrow> int \<Rightarrow> go_error + Project list \<times> Response" where
  "groupPage client group' n p =
     ListGroupProjects client n group'
       \<lparr>Page = p, PerPage = 100, ListGroupProjectsOptions.Archived = None\<rparr>"

definition projectsPage ::
  "flags \<Rightarrow> Client \<Rightarrow> nat \<Rightarrow> int \<Rightarrow> go_error + Project list \<times> Response" where
  "projectsPage fl client n p =
     ListProjects client n
       \<lparr>Page = p, PerPage = 100, ListProjectsOptions.Archived = Some (flagArchived fl)\<rparr>"

text \<open>
  A sequence of page responses, in the specification's words.
  \<open>servesPages fetch n p pss\<close>: asked for page \<open>p\<close> by request number \<open>n\<close> and then
  for the page each response announces, by the requests that follow, the service answers
  with the pages \<open>pss\<close>, without an error, and the last of them is the first whose
  next-page indicator is the sentinel zero.
  \<open>failsAfterPages fetch n p pss err\<close>: it answers with the pages \<open>pss\<close>, none of which is
  the last, and then with the error \<open>err\<close>.
  \<open>servesGroups client n groups psss\<close>: from request number \<open>n\<close> on, one sweep after the
  other, the service serves the pages \<open>psss\<close> of the groups; a sweep of \<open>k\<close> pages takes
  \<open>k\<close> requests.
\<close>

fun servesPages ::
  "(nat \<Rightarrow> int \<Rightarrow> go_error + Project list \<times> Response) \<Rightarrow> nat \<Rightarrow> int \<Rightarrow>
   Project list list \<Rightarrow> bool" where
  "servesPages fetch n p [] = False"
| "servesPages fetch n p (ps # pss) =
     (case fetch n p of
        Inl err \<Rightarrow> False
      | Inr (items, resp) \<Rightarrow>
          items = ps \<and>
          (if NextPage resp = 0 then pss = []
           else servesPages fetch (n + 1) (NextPage resp) pss))"

fun failsAfterPages ::
  "(nat \<Rightarrow> int \<Rightarrow> go_error + Project list \<times> Response) \<Rightarrow> nat \<Rightarrow> int \<Rightarrow>
   Project list list \<Rightarrow> go_error \<Rightarrow> bool" where
  "failsAfterPages fetch n p [] err = (fetch n p = Inl err)"
| "failsAfterPages fetch n p (ps # pss) err =
     (case fetch n p of
        Inl e \<Rightarrow> False
      | Inr (items, resp) \<Rightarrow>
          items = ps \<and> NextPage resp \<noteq> 0 \<and>
          failsAfterPages fetch (n + 1) (NextPage resp) pss err)"

fun servesGroups :: "Client \<Rightarrow> nat \<Rightarrow> string list \<Rightarrow> Project list list list \<Rightarrow> bool" where
  "servesGroups client n [] psss = (psss = [])"
| "servesGroups client n (group' # groups) psss =
     (case psss of
        [] \<Rightarrow> False
      | pss # rest \<Rightarrow>
          servesPages (groupPage client group') n 1 pss \<and>
          servesGroups client (n + length pss) groups rest)"

text \<open>
  Inputs for the examples: the default values of the flags, with no token in the
  environment, and a client with a group of two pages, a group that shares a project
  with it, and a listing of all projects whose second page is there for archived
  projects only. The service answers three requests and refuses the later ones.
\<close>

definition defaultFlags :: flags where
  "defaultFlags =
     \<lparr>flagApiBaseUrl = ''https://gitlab.example.com/api/v4'', flagGitlabToken = '''',
      flagRepoDir = ''repos'', flagIgnorelist = '''', flagRevision = ''HEAD'',
      flagUrlPattern = ''https://gitlab.com/{name}/-/blob/{version}/{path}#L{lno}'',
      flagName = ''livegrep index'', flagForks = True, flagArchived = False, flagHTTP = False,
      flagHTTPUsername = ''git'', flagDepth = 0, flagSkipMissing = False, flagGroups = []\<rparr>"

definition pagedClient :: Client where
  "pagedClient =
     \<lparr>ListGroupProjects = (\<lambda>calls group' opt.
        if 3 \<le> calls then Inl (Err ''429 Too Many Requests'')
        else if group' = ''teamA'' \<and> Page opt = 1 then Inr ([teamA_svc], \<lparr>NextPage = 2\<rparr>)
        else if group' = ''teamA'' \<and> Page opt = 2 then Inr ([teamA_legacy], \<lparr>NextPage = 0\<rparr>)
        else if group' = ''shared'' \<and> Page opt = 1 then Inr ([teamA_svc], \<lparr>NextPage = 0\<rparr>)
        else Inl (Err ''404 Group Not Found'')),
      ListProjects = (\<lambda>calls opt.
        if 3 \<le> calls then Inl (Err ''429 Too Many Requests'')
        else if Page opt = 1 then Inr ([teamA_svc], \<lparr>NextPage = 2\<rparr>)
        else if Page opt = 2 \<and> ListProjectsOptions.Archived opt = Some True
          then Inr ([teamA_legacy], \<lparr>NextPage = 0\<rparr>)
        else Inl (Err ''500 Internal Server Error''))\<rparr>"

subsection \<open>Properties of loadRepos\<close>

lemma listGroupProjects_loop_serves:
  "servesPages (groupPage client g) n p pss \<Longrightarrow>
     listGroupProjects_loop client g
       \<lparr>Page = p, PerPage = 100, ListGroupProjectsOptions.Archived = None\<rparr> projects n =
     Some (Inr (projects @ concat pss, n + length pss))"
proof (induction pss arbitrary: n p projects)
  case Nil
  then show ?case by simp
next
  case (Cons ps pss)
  show ?case
    using Cons.prems Cons.IH
    by (subst listGroupProjects_loop.simps)
       (auto simp: groupPage_def split: sum.splits if_splits)
qed

lemma listGroupProjects_loop_fails:
  "failsAfterPages (groupPage client g) n p pss err \<Longrightarrow>
     listGroupProjects_loop client g
       \<lparr>Page = p, PerPage = 100, ListGroupProjectsOptions.Archived = None\<rparr> projects n =
     Some (Inl err)"
proof (induction pss arbitrary: n p projects)
  case Nil
  then show ?case
    by (subst listGroupProjects_loop.simps) (simp add: groupPage_def)
next
  case (Cons ps pss)
  show ?case
    using Cons.prems Cons.IH
    by (subst listGroupProjects_loop.simps)
       (auto simp: groupPage_def split: sum.splits if_splits)
qed

lemma listProjects_loop_serves:
  "servesPages (projectsPage fl client) n p pss \<Longrightarrow>
     listProjects_loop client
       \<lparr>Page = p, PerPage = 100, ListProjectsOptions.Archived = Some (flagArchived fl)\<rparr>
       projects n =
     Some (Inr (projects @ concat pss, n + length pss))"
proof (induction pss arbitrary: n p projects)
  case Nil
  then show ?case by simp
next
  case (Cons ps pss)
  show ?case
    using Cons.prems Cons.IH
    by (subst listProjects_loop.simps)
       (auto simp: projectsPage_def split: sum.splits if_splits)
qed

lemma listProjects_loop_fails:
  "failsAfterPages (projectsPage fl client) n p pss err \<Longrightarrow>
     listProjects_loop client
       \<lparr>Page = p, PerPage = 100, ListProjectsOptions.Archived = Some (flagArchived fl)\<rparr>
       projects n =
     Some (Inl err)"
proof (induction pss arbitrary: n p projects)
  case Nil
  then show ?case
    by (subst listProjects_loop.simps) (simp add: projectsPage_def)
next
  case (Cons ps pss)
  show ?case
    using Cons.prems Cons.IH
    by (subst listProjects_loop.simps)
       (auto simp: projectsPage_def split: sum.splits if_splits)
qed

lemma loadRepos_groups_serves:
  "servesGroups client n groups psss \<Longrightarrow>
     loadRepos_groups client groups projects n =
     Some (Inr (projects @ concat (map concat psss)))"
proof (induction groups arbitrary: n psss projects)
  case Nil
  then show ?case by simp
next
  case (Cons g groups)
  then obtain pss rest where psss: "psss = pss # rest"
    and g: "servesPages (groupPage client g) n 1 pss"
    and rest: "servesGroups client (n + length pss) groups rest"
    by (auto split: list.splits)
  show ?case
    by (simp add: psss listGroupProjects_loop_serves [OF g] Cons.IH [OF rest])
qed

lemma loadRepos_groups_fails:
  "servesGroups client n before psss \<Longrightarrow>
   failsAfterPages (groupPage client g) (n + length (concat psss)) 1 pss err \<Longrightarrow>
     loadRepos_groups client (before @ g # rest) projects n = Some (Inl err)"
proof (induction before arbitrary: n psss projects)
  case Nil
  then show ?case
    by (simp add: listGroupProjects_loop_fails)
next
  case (Cons d ds)
  from Cons.prems(1) obtain ps' rest' where psss: "psss = ps' # rest'"
    and d: "servesPages (groupPage client d) n 1 ps'"
    and ds: "servesGroups client (n + length ps') ds rest'"
    by (auto split: list.splits)
  from Cons.prems(2)
  have "failsAfterPages (groupPage client g) (n + length ps' + length (concat rest')) 1 pss err"
    by (simp add: psss add.assoc)
  from Cons.IH [OF ds this] show ?case
    by (simp add: listGroupProjects_loop_serves [OF d])
qed

text \<open>
  Claim C9. The service may answer the same request differently from one call to the
  next; its answers are taken in the order of the requests. With groups: when every
  group's sweep of pages is served up to the page whose next-page indicator is zero,
  \<^verbatim>\<open>loadRepos\<close> returns the items of all pages of all groups, in order; when the sweeps of
  the groups \<open>before\<close> are served and a page fetch of the next group \<open>g\<close> fails, after
  any number of its pages, \<^verbatim>\<open>loadRepos\<close> returns that error and no projects, and the
  groups after \<open>g\<close> are not asked. Without groups, the same for the one sweep over all
  accessible projects. In each case \<^verbatim>\<open>loadRepos\<close> returns.
\<close>

theorem loadRepos_pages:
  "(groups \<noteq> [] \<and> servesGroups client 0 groups psss \<longrightarrow>
      loadRepos fl client groups = Some (Inr (concat (map concat psss))))
   \<and> (servesGroups client 0 before psss \<and>
      failsAfterPages (groupPage client g) (length (concat psss)) 1 pss err \<longrightarrow>
      loadRepos fl client (before @ g # rest) = Some (Inl err))
   \<and> (servesPages (projectsPage fl client) 0 1 pss \<longrightarrow>
      loadRepos fl client [] = Some (Inr (concat pss)))
   \<and> (failsAfterPages (projectsPage fl client) 0 1 pss err \<longrightarrow>
      loadRepos fl client [] = Some (Inl err))"
proof (intro conjI impI)
  assume "groups \<noteq> [] \<and> servesGroups client 0 groups psss"
  then show "loadRepos fl client groups = Some (Inr (concat (map concat psss)))"
    using loadRepos_groups_serves [of client 0 groups psss "[]"] by (simp add: loadRepos_def)
next
  assume "servesGroups client 0 before psss \<and>
          failsAfterPages (groupPage client g) (length (concat psss)) 1 pss err"
  then show "loadRepos fl client (before @ g # rest) = Some (Inl err)"
    using loadRepos_groups_fails [of client 0 before psss g pss err rest "[]"]
    by (simp add: loadRepos_def)
next
  assume "servesPages (projectsPage fl client) 0 1 pss"
  then show "loadRepos fl client [] = Some (Inr (concat pss))"
    using listProjects_loop_serves [of fl client 0 1 pss "[]"] by (simp add: loadRepos_def)
next
  assume "failsAfterPages (projectsPage fl client) 0 1 pss err"
  then show "loadRepos fl client [] = Some (Inl err)"
    using listProjects_loop_fails [of fl client 0 1 pss err "[]"] by (simp add: loadRepos_def)
qed

theorem loadRepos_pages_witness:
  "loadRepos defaultFlags pagedClient [''teamA'', ''shared''] =
     Some (Inr [teamA_svc, teamA_legacy, teamA_svc])
   \<and> loadRepos defaultFlags pagedClient [''teamA'', ''teamB'', ''shared''] =
     Some (Inl (Err ''404 Group Not Found''))
   \<and> loadRepos defaultFlags pagedClient [''teamA'', ''shared'', ''teamA''] =
     Some (Inl (Err ''429 Too Many Requests''))
   \<and> loadRepos (defaultFlags\<lparr>flagArchived := True\<rparr>) pagedClient [] =
     Some (Inr [teamA_svc, teamA_legacy])
   \<and> loadRepos defaultFlags pagedClient [] = Some (Inl (Err ''500 Internal Server Error''))"
proof -
  have a: "servesGroups pagedClient 0 [''teamA''] [[[teamA_svc], [teamA_legacy]]]"
    by (simp add: groupPage_def pagedClient_def)
  have s: "servesGroups pagedClient 0 [''teamA'', ''shared'']
             [[[teamA_svc], [teamA_legacy]], [[teamA_svc]]]"
    by (simp add: groupPage_def pagedClient_def)
  have b: "failsAfterPages (groupPage pagedClient ''teamB'')
             (length (concat [[[teamA_svc], [teamA_legacy]]])) 1 []
             (Err ''404 Group Not Found'')"
    by (simp add: groupPage_def pagedClient_def)
  have c: "failsAfterPages (groupPage pagedClient ''teamA'')
             (length (concat [[[teamA_svc], [teamA_legacy]], [[teamA_svc]]])) 1 []
             (Err ''429 Too Many Requests'')"
    by (simp add: groupPage_def pagedClient_def)
  have p: "servesPages (projectsPage (defaultFlags\<lparr>flagArchived := True\<rparr>) pagedClient) 0 1
             [[teamA_svc], [teamA_legacy]]"
    by (simp add: projectsPage_def pagedClient_def)
  have q: "failsAfterPages (projectsPage defaultFlags pagedClient) 0 1 [[teamA_svc]]
             (Err ''500 Internal Server Error'')"
    by (simp add: projectsPage_def pagedClient_def defaultFlags_def)
  have 1: "loadRepos defaultFlags pagedClient [''teamA'', ''shared''] =
             Some (Inr [teamA_svc, teamA_legacy, teamA_svc])"
    using s loadRepos_pages [of "[''teamA'', ''shared'']" pagedClient
         "[[[teamA_svc], [teamA_legacy]], [[teamA_svc]]]" defaultFlags]
    by simp
  have 2: "loadRepos defaultFlags pagedClient [''teamA'', ''teamB'', ''shared''] =
             Some (Inl (Err ''404 Group Not Found''))"
    using a b loadRepos_pages [of _ pagedClient "[[[teamA_svc], [teamA_legacy]]]" defaultFlags
         "[''teamA'']" "''teamB''" "[]" "Err ''404 Group Not Found''" "[''shared'']"]
    by simp
  have 3: "loadRepos defaultFlags pagedClient [''teamA'', ''shared'', ''teamA''] =
             Some (Inl (Err ''429 Too Many Requests''))"
    using s c loadRepos_pages [of _ pagedClient
         "[[[teamA_svc], [teamA_legacy]], [[teamA_svc]]]" defaultFlags
         "[''teamA'', ''shared'']" "''teamA''" "[]" "Err ''429 Too Many Requests''" "[]"]
    by simp
  have 4: "loadRepos (defaultFlags\<lparr>flagArchived := True\<rparr>) pagedClient [] =
             Some (Inr [teamA_svc, teamA_legacy])"
    using p loadRepos_pages [of _ pagedClient _ "defaultFlags\<lparr>flagArchived := True\<rparr>" _ _
         "[[teamA_svc], [teamA_legacy]]"]
    by simp
  have 5: "loadRepos defaultFlags pagedClient [] = Some (Inl (Err ''500 Internal Server Error''))"
    using q loadRepos_pages [of _ pagedClient _ defaultFlags _ _
         "[[teamA_svc]]" "Err ''500 Internal Server Error''"]
    by simp
  show ?thesis
    using 1 2 3 4 5 by simp
qed

subsection \<open>path.Join\<close>

text \<open>
  \<^verbatim>\<open>path.Clean\<close>, on the elements between the slashes of the path: empty elements and
  \<^verbatim>\<open>.\<close> are dropped; \<^verbatim>\<open>..\<close> removes the element before it when there is one that is not
  itself \<^verbatim>\<open>..\<close>, is dropped at the root of a rooted path, and is kept otherwise. The
  empty result is \<^verbatim>\<open>.\<close>.
\<close>

fun path_Clean_loop :: "bool \<Rightarrow> string list \<Rightarrow> string list \<Rightarrow> string list" where
  "path_Clean_loop rooted [] out = out"
| "path_Clean_loop rooted (e # elems) out =
     (if e = '''' \<or> e = ''.'' then path_Clean_loop rooted elems out
      else if e = ''..'' then
        (if out \<noteq> [] \<and> last out \<noteq> ''..'' then path_Clean_loop rooted elems (butlast out)
         else if \<not> rooted then path_Clean_loop rooted elems (out @ [''..''])
         else path_Clean_loop rooted elems out)
      else path_Clean_loop rooted elems (out @ [e]))"

definition path_Clean :: "string \<Rightarrow> string" where
  "path_Clean path =
     (if path = '''' then ''.''
      else
        let rooted = (hd path = CHR ''/'');
            out = path_Clean_loop rooted (strings_Split path CHR ''/'') []
        in if rooted then ''/'' @ strings_Join out ''/''
           else if out = [] then ''.''
           else strings_Join out ''/'')"

text \<open>
  \<^verbatim>\<open>path.Join\<close>: the elements from the first non-empty one on, joined with slashes and
  cleaned; the empty string when every element is empty.
\<close>

definition path_Join :: "string list \<Rightarrow> string" where
  "path_Join elem =
     (case dropWhile (\<lambda>e. e = '''') elem of
        [] \<Rightarrow> ''''
      | e # es \<Rightarrow> path_Clean (strings_Join (e # es) ''/''))"

subsection \<open>ReposByName\<close>

text \<open>\<^verbatim>\<open>ReposByName.Less\<close>, on the two elements at the indices it is given.\<close>

definition ReposByName_Less :: "Project \<Rightarrow> Project \<Rightarrow> bool" where
  "ReposByName_Less a b = (PathWithNamespace a < PathWithNamespace b)"

text \<open>
  What \<^verbatim>\<open>sort.Sort\<close> promises of the slice it has sorted, whatever the algorithm and
  without stability: it is in ascending order as \<^verbatim>\<open>Less\<close> determines it, that is, no
  element is \<^verbatim>\<open>Less\<close> than one before it.
\<close>

definition ascending :: "('a \<Rightarrow> 'a \<Rightarrow> bool) \<Rightarrow> 'a list \<Rightarrow> bool" where
  "ascending lt xs = sorted_wrt (\<lambda>a b. \<not> lt b a) xs"

subsection \<open>buildConfig\<close>

text \<open>
  The loop of \<^verbatim>\<open>buildConfig\<close>. The state is \<open>cfg\<close>, the lines logged and the number of
  runs of \<^verbatim>\<open>git\<close> so far. The flags are read as the source reads them, inside the loop.
  \<^verbatim>\<open>git\<close> runs only when \<^verbatim>\<open>-skip-missing\<close> is set.
\<close>

fun buildConfig_loop ::
  "world \<Rightarrow> flags \<Rightarrow> string \<Rightarrow> Project list \<Rightarrow> string \<Rightarrow>
   IndexSpec \<times> string list \<times> nat \<Rightarrow> IndexSpec \<times> string list \<times> nat" where
  "buildConfig_loop w fl dir [] revision (cfg, logged, runs) = (cfg, logged, runs)"
| "buildConfig_loop w fl dir (r # repos) revision (cfg, logged, runs) =
     (if flagSkipMissing fl \<and>
         \<not> gitRevParseVerify w runs (path_Join [dir, PathWithNamespace r]) revision
      then
        buildConfig_loop w fl dir repos revision
          (cfg,
           logged @ [''Skipping missing revision repo='' @ PathWithNamespace r @
                     '' rev='' @ revision],
           runs + 1)
      else
        let remote = (if flagHTTP fl then HTTPURLToRepo r else SSHURLToRepo r);
            password_env = (if flagGitlabToken fl \<noteq> '''' then ''GITLAB_TOKEN'' else '''')
        in buildConfig_loop w fl dir repos revision
             (cfg\<lparr>Repositories := Repositories cfg @
                [\<lparr>Path = path_Join [dir, PathWithNamespace r],
                  RepoSpec.Name = PathWithNamespace r,
                  Revisions = [revision],
                  Metadata = Some \<lparr>Github = WebURL r, Remote = remote,
                                   UrlPattern = flagUrlPattern fl\<rparr>,
                  CloneOptions = Some \<lparr>Depth = ucast (flagDepth fl),
                                       Username = flagHTTPUsername fl,
                                       PasswordEnv = password_env\<rparr>\<rparr>]\<rparr>,
              logged,
              if flagSkipMissing fl then runs + 1 else runs))"

text \<open>
  \<^verbatim>\<open>buildConfig\<close>, when no \<^verbatim>\<open>git\<close> has run yet: the state at its last line, the
  specification it has built there, and the value it returns.
\<close>

definition buildConfig_run ::
  "world \<Rightarrow> flags \<Rightarrow> string \<Rightarrow> string \<Rightarrow> Project list \<Rightarrow> string \<Rightarrow>
   IndexSpec \<times> string list \<times> nat" where
  "buildConfig_run w fl name dir repos revision =
     buildConfig_loop w fl dir repos revision
       (\<lparr>IndexSpec.Name = name, Repositories = []\<rparr>, [], 0)"

definition buildConfig_cfg ::
  "world \<Rightarrow> flags \<Rightarrow> string \<Rightarrow> string \<Rightarrow> Project list \<Rightarrow> string \<Rightarrow> IndexSpec" where
  "buildConfig_cfg w fl name dir repos revision =
     fst (buildConfig_run w fl name dir repos revision)"

definition buildConfig ::
  "world \<Rightarrow> flags \<Rightarrow> string \<Rightarrow> string \<Rightarrow> Project list \<Rightarrow> string \<Rightarrow> go_error + string" where
  "buildConfig w fl name dir repos revision =
     jsonMarshalIndent w (buildConfig_cfg w fl name dir repos revision)"

text \<open>
  The descriptors that get a \<open>RepoSpec\<close>: all of them without \<^verbatim>\<open>-skip-missing\<close>, and
  with it those for which \<^verbatim>\<open>git\<close> finds the revision, the descriptor at index \<open>i\<close> of
  the slice being checked by run number \<open>runs + i\<close>. \<open>repoSpecOf\<close> is the \<open>RepoSpec\<close>
  of a descriptor.
\<close>

fun keptRepos ::
  "world \<Rightarrow> flags \<Rightarrow> string \<Rightarrow> string \<Rightarrow> nat \<Rightarrow> Project list \<Rightarrow> Project list" where
  "keptRepos w fl dir revision runs [] = []"
| "keptRepos w fl dir revision runs (r # repos) =
     (if \<not> flagSkipMissing fl then r # keptRepos w fl dir revision runs repos
      else if gitRevParseVerify w runs (path_Join [dir, PathWithNamespace r]) revision
        then r # keptRepos w fl dir revision (runs + 1) repos
      else keptRepos w fl dir revision (runs + 1) repos)"

definition repoSpecOf :: "flags \<Rightarrow> string \<Rightarrow> string \<Rightarrow> Project \<Rightarrow> RepoSpec" where
  "repoSpecOf fl dir revision r =
     \<lparr>Path = path_Join [dir, PathWithNamespace r],
      RepoSpec.Name = PathWithNamespace r,
      Revisions = [revision],
      Metadata = Some \<lparr>Github = WebURL r,
                       Remote = (if flagHTTP fl then HTTPURLToRepo r else SSHURLToRepo r),
                       UrlPattern = flagUrlPattern fl\<rparr>,
      CloneOptions = Some \<lparr>Depth = ucast (flagDepth fl),
                           Username = flagHTTPUsername fl,
                           PasswordEnv = (if flagGitlabToken fl \<noteq> '''' then ''GITLAB_TOKEN''
                                          else '''')\<rparr>\<rparr>"

text \<open>
  Inputs for the examples: a world in which the first two runs of \<^verbatim>\<open>git\<close> do not find
  the revision \<^verbatim>\<open>abc123\<close> in \<^verbatim>\<open>/repos/teamA/svc\<close>, and the later ones do.
\<close>

definition exampleWorld :: world where
  "exampleWorld =
     \<lparr>ReadFile = (\<lambda>path. Inl (Err (''open '' @ path @ '': no such file or directory''))),
      NewClient = (\<lambda>token baseUrl. Inr pagedClient),
      gitRevParseVerify = (\<lambda>runs gitDir revision.
        \<not> (runs < 2 \<and> gitDir = ''/repos/teamA/svc'' \<and> revision = ''abc123'')),
      jsonMarshalIndent = (\<lambda>cfg. Inr (json_IndexSpec cfg))\<rparr>"

subsection \<open>Properties of buildConfig\<close>

lemma buildConfig_loop_eq:
  "fst (buildConfig_loop w fl dir repos revision (cfg, logged, runs)) =
     cfg\<lparr>Repositories := Repositories cfg @
           map (repoSpecOf fl dir revision) (keptRepos w fl dir revision runs repos)\<rparr>"
proof (induction repos arbitrary: cfg logged runs)
  case Nil
  show ?case by simp
next
  case (Cons r repos)
  show ?case
    by (simp add: Cons.IH repoSpecOf_def)
qed

lemma buildConfig_cfg_eq:
  "buildConfig_cfg w fl name dir repos revision =
     \<lparr>IndexSpec.Name = name,
      Repositories = map (repoSpecOf fl dir revision) (keptRepos w fl dir revision 0 repos)\<rparr>"
  by (simp add: buildConfig_cfg_def buildConfig_run_def buildConfig_loop_eq)

lemma in_set_keptRepos:
  "x \<in> set (keptRepos w fl dir revision runs repos) \<Longrightarrow> x \<in> set repos"
  by (induction repos arbitrary: runs) (auto split: if_splits)

lemma keptRepos_all: "\<not> flagSkipMissing fl \<Longrightarrow> keptRepos w fl dir revision runs repos = repos"
  by (induction repos) auto

lemma sorted_keptRepos:
  "sorted (map f repos) \<Longrightarrow> sorted (map f (keptRepos w fl dir revision runs repos))"
proof (induction repos arbitrary: runs)
  case Nil
  show ?case by simp
next
  case (Cons r repos)
  from Cons.prems have "sorted (map f repos)" and le: "\<forall>x \<in> set repos. f r \<le> f x"
    by auto
  with Cons.IH show ?case
    by (auto dest: in_set_keptRepos)
qed

lemma distinct_keptRepos:
  "distinct (map f repos) \<Longrightarrow> distinct (map f (keptRepos w fl dir revision runs repos))"
proof (induction repos arbitrary: runs)
  case Nil
  show ?case by simp
next
  case (Cons r repos)
  from Cons.prems have "distinct (map f repos)" and "f r \<notin> f ` set repos"
    by auto
  with Cons.IH show ?case
    by (auto dest: in_set_keptRepos)
qed

text \<open>
  Claim C4. The built specification has one \<open>RepoSpec\<close> for each descriptor that passes
  the revision check, in the order of the descriptors, named after it; every one has a
  \<open>Metadata\<close>, and its \<open>Remote\<close> is the descriptor's SSH clone URL when \<^verbatim>\<open>-http\<close> is
  not set and the descriptor's HTTPS clone URL when it is.
\<close>

theorem buildConfig_remote:
  "map RepoSpec.Name (Repositories (buildConfig_cfg w fl name dir repos revision)) =
     map PathWithNamespace (keptRepos w fl dir revision 0 repos)
   \<and> (\<not> flagHTTP fl \<longrightarrow>
        map (\<lambda>s. map_option Remote (RepoSpec.Metadata s))
          (Repositories (buildConfig_cfg w fl name dir repos revision)) =
        map (\<lambda>r. Some (SSHURLToRepo r)) (keptRepos w fl dir revision 0 repos))
   \<and> (flagHTTP fl \<longrightarrow>
        map (\<lambda>s. map_option Remote (RepoSpec.Metadata s))
          (Repositories (buildConfig_cfg w fl name dir repos revision)) =
        map (\<lambda>r. Some (HTTPURLToRepo r)) (keptRepos w fl dir revision 0 repos))"
  by (simp add: buildConfig_cfg_eq repoSpecOf_def comp_def)

theorem buildConfig_remote_witness:
  "map (\<lambda>s. map_option Remote (RepoSpec.Metadata s))
     (Repositories (buildConfig_cfg exampleWorld (defaultFlags\<lparr>flagSkipMissing := True\<rparr>)
        ''livegrep index'' ''/repos'' [teamA_legacy, teamA_svc, teamA_svc] ''abc123'')) =
     [Some ''git@gitlab.example.com:teamA/legacy.git'',
      Some ''git@gitlab.example.com:teamA/svc.git'']
   \<and> map (\<lambda>s. map_option Remote (RepoSpec.Metadata s))
     (Repositories (buildConfig_cfg exampleWorld (defaultFlags\<lparr>flagHTTP := True\<rparr>)
        ''livegrep index'' ''/repos'' [teamA_legacy, teamA_svc] ''HEAD'')) =
     [Some ''https://gitlab.example.com/teamA/legacy.git'',
      Some ''https://gitlab.example.com/teamA/svc.git'']"
proof -
  have kept: "keptRepos exampleWorld (defaultFlags\<lparr>flagSkipMissing := True\<rparr>) ''/repos''
                ''abc123'' 0 [teamA_legacy, teamA_svc, teamA_svc] = [teamA_legacy, teamA_svc]"
    by (simp add: defaultFlags_def exampleWorld_def teamA_legacy_def teamA_svc_def
          path_Join_def path_Clean_def)
  have all: "keptRepos exampleWorld (defaultFlags\<lparr>flagHTTP := True\<rparr>) ''/repos''
               ''HEAD'' 0 [teamA_legacy, teamA_svc] = [teamA_legacy, teamA_svc]"
    by (simp add: defaultFlags_def keptRepos_all)
  have ssh: "\<not> flagHTTP (defaultFlags\<lparr>flagSkipMissing := True\<rparr>)"
    and http: "flagHTTP (defaultFlags\<lparr>flagHTTP := True\<rparr>)"
    by (simp_all add: defaultFlags_def)
  show ?thesis
    using buildConfig_remote [of exampleWorld "defaultFlags\<lparr>flagSkipMissing := True\<rparr>"
            "''livegrep index''" "''/repos''" "[teamA_legacy, teamA_svc, teamA_svc]" "''abc123''"]
          buildConfig_remote [of exampleWorld "defaultFlags\<lparr>flagHTTP := True\<rparr>"
            "''livegrep index''" "''/repos''" "[teamA_legacy, teamA_svc]" "''HEAD''"]
    unfolding kept all using ssh http
    by (simp add: teamA_legacy_def teamA_svc_def)
qed

lemma ascending_ReposByName:
  "ascending ReposByName_Less repos \<longleftrightarrow> sorted (map PathWithNamespace repos)"
  by (induction repos) (auto simp: ascending_def ReposByName_Less_def not_less)

text \<open>
  Claim C6. When the descriptors given to \<^verbatim>\<open>buildConfig\<close> are in the order in which
  \<^verbatim>\<open>sort.Sort(ReposByName(repos))\<close> leaves them, the names of the \<open>Repositories\<close> of
  the built specification, which are the namespace-qualified paths of the descriptors
  that got a \<open>RepoSpec\<close>, are in non-decreasing lexicographic order, whichever
  descriptors the revision check drops.
\<close>

theorem buildConfig_sorted:
  assumes "ascending ReposByName_Less repos"
  shows "sorted (map RepoSpec.Name (Repositories (buildConfig_cfg w fl name dir repos revision)))
    \<and> map RepoSpec.Name (Repositories (buildConfig_cfg w fl name dir repos revision)) =
      map PathWithNamespace (keptRepos w fl dir revision 0 repos)"
proof -
  from assms have "sorted (map PathWithNamespace repos)"
    by (simp add: ascending_ReposByName)
  then have "sorted (map PathWithNamespace (keptRepos w fl dir revision 0 repos))"
    by (rule sorted_keptRepos)
  then show ?thesis
    by (simp add: buildConfig_cfg_eq repoSpecOf_def comp_def)
qed

theorem buildConfig_sorted_witness:
  "ascending ReposByName_Less [teamA_legacy, teamA_svc, teamA_svc]
   \<and> \<not> ascending ReposByName_Less [teamA_svc, teamA_legacy]
   \<and> map RepoSpec.Name
       (Repositories (buildConfig_cfg exampleWorld (defaultFlags\<lparr>flagSkipMissing := True\<rparr>)
          ''livegrep index'' ''/repos'' [teamA_legacy, teamA_svc, teamA_svc] ''abc123'')) =
     [''teamA/legacy'', ''teamA/svc'']
   \<and> sorted [''teamA/legacy'', ''teamA/svc'']"
proof -
  have asc: "ascending ReposByName_Less [teamA_legacy, teamA_svc, teamA_svc]"
    by (simp add: ascending_def ReposByName_Less_def teamA_legacy_def teamA_svc_def)
  have desc: "\<not> ascending ReposByName_Less [teamA_svc, teamA_legacy]"
    by (simp add: ascending_def ReposByName_Less_def teamA_legacy_def teamA_svc_def)
  have kept: "keptRepos exampleWorld (defaultFlags\<lparr>flagSkipMissing := True\<rparr>) ''/repos''
                ''abc123'' 0 [teamA_legacy, teamA_svc, teamA_svc] = [teamA_legacy, teamA_svc]"
    by (simp add: defaultFlags_def exampleWorld_def teamA_legacy_def teamA_svc_def
          path_Join_def path_Clean_def)
  have names: "map PathWithNamespace [teamA_legacy, teamA_svc] = [''teamA/legacy'', ''teamA/svc'']"
    by (simp add: teamA_legacy_def teamA_svc_def)
  show ?thesis
    using asc desc
      buildConfig_sorted [OF asc, of exampleWorld "defaultFlags\<lparr>flagSkipMissing := True\<rparr>"
        "''livegrep index''" "''/repos''" "''abc123''"]
    unfolding kept names by simp
qed

text \<open>
  A namespace-qualified path in its usual form: names separated by single slashes, none
  of them empty, \<^verbatim>\<open>.\<close> or \<^verbatim>\<open>..\<close>.
\<close>

definition wellFormedPath :: "string \<Rightarrow> bool" where
  "wellFormedPath p =
     list_all (\<lambda>e. e \<noteq> '''' \<and> e \<noteq> ''.'' \<and> e \<noteq> ''..'') (strings_Split p CHR ''/'')"

lemma strings_Split_append:
  "strings_Split (a @ sep # b) sep = strings_Split a sep @ strings_Split b sep"
proof (induction a)
  case Nil
  show ?case by simp
next
  case (Cons c a)
  obtain l ls where sp: "strings_Split a sep = l # ls"
    using strings_Split_nonempty [of a sep] by (cases "strings_Split a sep") auto
  with Cons show ?case by simp
qed

text \<open>What one element of the path does to the elements kept so far.\<close>

definition path_Clean_step :: "bool \<Rightarrow> string list \<Rightarrow> string \<Rightarrow> string list" where
  "path_Clean_step rooted out e =
     (if e = '''' \<or> e = ''.'' then out
      else if e = ''..'' then
        (if out \<noteq> [] \<and> last out \<noteq> ''..'' then butlast out
         else if \<not> rooted then out @ [''..'']
         else out)
      else out @ [e])"

lemma path_Clean_loop_foldl:
  "path_Clean_loop rooted elems out = foldl (path_Clean_step rooted) out elems"
proof (induction elems arbitrary: out)
  case Nil
  show ?case by simp
next
  case (Cons e elems)
  have "path_Clean_loop rooted (e # elems) out =
        path_Clean_loop rooted elems (path_Clean_step rooted out e)"
    by (simp add: path_Clean_step_def)
  then show ?case
    by (simp add: Cons.IH)
qed

lemma path_Clean_loop_names:
  "list_all (\<lambda>e. e \<noteq> '''' \<and> e \<noteq> ''.'' \<and> e \<noteq> ''..'') elems \<Longrightarrow>
     path_Clean_loop rooted elems out = out @ elems"
  unfolding path_Clean_loop_foldl
  by (induction elems arbitrary: out) (simp_all add: path_Clean_step_def)

lemma path_Clean_loop_append:
  "path_Clean_loop rooted (as @ bs) out =
     path_Clean_loop rooted bs (path_Clean_loop rooted as out)"
  by (simp add: path_Clean_loop_foldl)

lemma path_Clean_step_no_slash:
  assumes "CHR ''/'' \<notin> set e" and "\<forall>x \<in> set out. CHR ''/'' \<notin> set x"
  shows "\<forall>x \<in> set (path_Clean_step rooted out e). CHR ''/'' \<notin> set x"
proof -
  have "\<forall>x \<in> set (butlast out). CHR ''/'' \<notin> set x"
    using assms(2) by (auto dest: in_set_butlastD)
  with assms show ?thesis
    by (simp add: path_Clean_step_def)
qed

lemma path_Clean_loop_no_slash:
  "\<forall>e \<in> set elems. CHR ''/'' \<notin> set e \<Longrightarrow> \<forall>e \<in> set out. CHR ''/'' \<notin> set e \<Longrightarrow>
     \<forall>e \<in> set (path_Clean_loop rooted elems out). CHR ''/'' \<notin> set e"
  unfolding path_Clean_loop_foldl
proof (induction elems arbitrary: out)
  case Nil
  then show ?case by simp
next
  case (Cons e elems)
  from Cons.prems have e: "CHR ''/'' \<notin> set e" and el: "\<forall>e \<in> set elems. CHR ''/'' \<notin> set e"
    by simp_all
  from Cons.IH [OF el path_Clean_step_no_slash [OF e Cons.prems(2)]] show ?case
    by simp
qed

lemma strings_Join_inject:
  assumes "xs \<noteq> []" "ys \<noteq> []" "\<forall>l \<in> set xs. sep \<notin> set l" "\<forall>l \<in> set ys. sep \<notin> set l"
    and "strings_Join xs [sep] = strings_Join ys [sep]"
  shows "xs = ys"
proof -
  have "xs = strings_Split (strings_Join xs [sep]) sep"
    by (rule strings_Split_Join [OF assms(1,3), symmetric])
  also have "\<dots> = strings_Split (strings_Join ys [sep]) sep"
    by (simp only: assms(5))
  also have "\<dots> = ys"
    by (rule strings_Split_Join [OF assms(2,4)])
  finally show ?thesis .
qed

lemma wellFormedPath_not_rooted: "wellFormedPath p \<Longrightarrow> p \<noteq> [] \<and> hd p \<noteq> CHR ''/''"
  by (cases p) (auto simp: wellFormedPath_def split: if_splits list.splits)

lemma path_Join_wellFormedPath:
  assumes "wellFormedPath p"
  shows "path_Join [dir, p] =
     (if dir = '''' then p
      else (if hd dir = CHR ''/'' then ''/'' else '''') @
           strings_Join
             (path_Clean_loop (hd dir = CHR ''/'') (strings_Split dir CHR ''/'') [] @
              strings_Split p CHR ''/'') ''/'')"
proof -
  from assms
  have names: "list_all (\<lambda>e. e \<noteq> '''' \<and> e \<noteq> ''.'' \<and> e \<noteq> ''..'') (strings_Split p CHR ''/'')"
    by (simp add: wellFormedPath_def)
  note nr = wellFormedPath_not_rooted [OF assms]
  show ?thesis
  proof (cases "dir = ''''")
    case True
    with nr show ?thesis
      by (simp add: path_Join_def path_Clean_def path_Clean_loop_names [OF names]
            strings_Split_nonempty strings_Join_Split)
  next
    case False
    then obtain c d where dir: "dir = c # d"
      by (cases dir) auto
    have j: "strings_Join [dir, p] ''/'' = dir @ CHR ''/'' # p"
      by simp
    have sp: "strings_Split (dir @ CHR ''/'' # p) CHR ''/'' =
              strings_Split dir CHR ''/'' @ strings_Split p CHR ''/''"
      by (rule strings_Split_append)
    have lp: "path_Clean_loop rooted (strings_Split dir CHR ''/'' @ strings_Split p CHR ''/'') [] =
              path_Clean_loop rooted (strings_Split dir CHR ''/'') [] @ strings_Split p CHR ''/''"
      for rooted
      by (simp add: path_Clean_loop_append path_Clean_loop_names [OF names])
    have ne: "strings_Split p CHR ''/'' \<noteq> []"
      by (rule strings_Split_nonempty)
    from False have dw: "dropWhile (\<lambda>e. e = '''') [dir, p] = [dir, p]"
      by simp
    show ?thesis
      unfolding path_Join_def dw list.case j path_Clean_def sp Let_def lp
      using False ne by (simp add: dir)
  qed
qed

lemma path_Join_inject:
  assumes "wellFormedPath p" "wellFormedPath q" "path_Join [dir, p] = path_Join [dir, q]"
  shows "p = q"
proof (cases "dir = ''''")
  case True
  with assms show ?thesis by (simp add: path_Join_wellFormedPath)
next
  case False
  let ?S = "path_Clean_loop (hd dir = CHR ''/'') (strings_Split dir CHR ''/'') []"
  have S: "\<forall>e \<in> set ?S. CHR ''/'' \<notin> set e"
    by (rule path_Clean_loop_no_slash) (auto dest: strings_Split_no_sep)
  have "strings_Join (?S @ strings_Split p CHR ''/'') ''/'' =
        strings_Join (?S @ strings_Split q CHR ''/'') ''/''"
    using assms False by (simp add: path_Join_wellFormedPath)
  then have "?S @ strings_Split p CHR ''/'' = ?S @ strings_Split q CHR ''/''"
    using S by (intro strings_Join_inject [of _ _ "CHR ''/''"])
               (auto simp: strings_Split_nonempty dest: strings_Split_no_sep)
  then have "strings_Split p CHR ''/'' = strings_Split q CHR ''/''"
    by simp
  then have "strings_Join (strings_Split p CHR ''/'') ''/'' =
             strings_Join (strings_Split q CHR ''/'') ''/''"
    by simp
  then show ?thesis
    by (simp add: strings_Join_Split)
qed

text \<open>
  Claim C2, as amended. The \<open>Path\<close> of every \<open>RepoSpec\<close> is \<^verbatim>\<open>path.Join\<close> of the root
  directory and the namespace-qualified path of its descriptor, and of nothing else.
  The paths of a built specification are pairwise different when the descriptors given
  to \<^verbatim>\<open>buildConfig\<close> have pairwise different namespace-qualified paths of the usual form.
\<close>

theorem buildConfig_paths:
  "map Path (Repositories (buildConfig_cfg w fl name dir repos revision)) =
     map (\<lambda>r. path_Join [dir, PathWithNamespace r]) (keptRepos w fl dir revision 0 repos)
   \<and> (distinct (map PathWithNamespace repos) \<and>
      list_all (\<lambda>r. wellFormedPath (PathWithNamespace r)) repos \<longrightarrow>
      distinct (map Path (Repositories (buildConfig_cfg w fl name dir repos revision))))"
proof (intro conjI impI)
  show eq: "map Path (Repositories (buildConfig_cfg w fl name dir repos revision)) =
     map (\<lambda>r. path_Join [dir, PathWithNamespace r]) (keptRepos w fl dir revision 0 repos)"
    by (simp add: buildConfig_cfg_eq repoSpecOf_def comp_def)
  assume a: "distinct (map PathWithNamespace repos) \<and>
             list_all (\<lambda>r. wellFormedPath (PathWithNamespace r)) repos"
  let ?kept = "keptRepos w fl dir revision 0 repos"
  from a have d: "distinct (map PathWithNamespace ?kept)"
    by (simp add: distinct_keptRepos)
  from a have wf: "\<forall>r \<in> set ?kept. wellFormedPath (PathWithNamespace r)"
    by (auto simp: list_all_iff dest: in_set_keptRepos)
  have "inj_on (\<lambda>p. path_Join [dir, p]) (set (map PathWithNamespace ?kept))"
    using wf by (auto intro!: inj_onI dest: path_Join_inject)
  with d have "distinct (map (\<lambda>p. path_Join [dir, p]) (map PathWithNamespace ?kept))"
    by (simp only: distinct_map simp_thms)
  then show "distinct (map Path (Repositories (buildConfig_cfg w fl name dir repos revision)))"
    unfolding eq by (simp add: comp_def)
qed

theorem buildConfig_paths_witness:
  "distinct (map PathWithNamespace [teamA_legacy, teamA_svc])
   \<and> wellFormedPath ''teamA/legacy'' \<and> wellFormedPath ''teamA/svc''
   \<and> \<not> wellFormedPath ''teamA//svc'' \<and> path_Join [''/repos'', ''teamA//svc''] = ''/repos/teamA/svc''
   \<and> map Path (Repositories (buildConfig_cfg exampleWorld defaultFlags ''livegrep index''
        ''/repos'' [teamA_legacy, teamA_svc] ''HEAD'')) =
     [''/repos/teamA/legacy'', ''/repos/teamA/svc'']
   \<and> distinct (map Path (Repositories (buildConfig_cfg exampleWorld defaultFlags
        ''livegrep index'' ''/repos'' [teamA_legacy, teamA_svc] ''HEAD'')))"
proof -
  have d: "distinct (map PathWithNamespace [teamA_legacy, teamA_svc])"
    by (simp add: teamA_legacy_def teamA_svc_def)
  have wl: "wellFormedPath ''teamA/legacy''" and ws: "wellFormedPath ''teamA/svc''"
    and nw: "\<not> wellFormedPath ''teamA//svc''"
    by (simp_all add: wellFormedPath_def)
  have j: "path_Join [''/repos'', ''teamA//svc''] = ''/repos/teamA/svc''"
    by (simp add: path_Join_def path_Clean_def)
  have wf: "list_all (\<lambda>r. wellFormedPath (PathWithNamespace r)) [teamA_legacy, teamA_svc]"
    using wl ws by (simp add: teamA_legacy_def teamA_svc_def)
  have kept: "keptRepos exampleWorld defaultFlags ''/repos'' ''HEAD'' 0 [teamA_legacy, teamA_svc] =
              [teamA_legacy, teamA_svc]"
    by (simp add: keptRepos_all defaultFlags_def)
  have paths: "map (\<lambda>r. path_Join [''/repos'', PathWithNamespace r]) [teamA_legacy, teamA_svc] =
               [''/repos/teamA/legacy'', ''/repos/teamA/svc'']"
    by (simp add: teamA_legacy_def teamA_svc_def path_Join_def path_Clean_def)
  show ?thesis
    using d wl ws nw j wf
      buildConfig_paths [of exampleWorld defaultFlags "''livegrep index''" "''/repos''"
        "[teamA_legacy, teamA_svc]" "''HEAD''"]
    unfolding kept paths by simp
qed

text \<open>
  Claim C2 as stated, for every run, fails: \<^verbatim>\<open>loadRepos\<close> appends the projects of one
  group after those of the other and removes no duplicate. When the groups
  \<^verbatim>\<open>teamA\<close> and \<^verbatim>\<open>shared\<close> both list \<^verbatim>\<open>teamA/svc\<close>, the descriptor is discovered twice,
  passes the filter twice, is twice in the sorted slice, and the built specification has
  two entries with the path \<^verbatim>\<open>repos/teamA/svc\<close>.
\<close>

theorem duplicate_paths_counterexample:
  "loadRepos defaultFlags pagedClient [''teamA'', ''shared''] =
     Some (Inr [teamA_svc, teamA_legacy, teamA_svc])
   \<and> filterRepos [teamA_svc, teamA_legacy, teamA_svc] None
       (\<not> flagForks defaultFlags) (\<not> flagArchived defaultFlags) =
     [teamA_svc, teamA_legacy, teamA_svc]
   \<and> ascending ReposByName_Less [teamA_legacy, teamA_svc, teamA_svc]
   \<and> map Path (Repositories (buildConfig_cfg exampleWorld defaultFlags (flagName defaultFlags)
        (flagRepoDir defaultFlags) [teamA_legacy, teamA_svc, teamA_svc]
        (flagRevision defaultFlags))) =
     [''repos/teamA/legacy'', ''repos/teamA/svc'', ''repos/teamA/svc'']
   \<and> \<not> distinct (map Path (Repositories (buildConfig_cfg exampleWorld defaultFlags
        (flagName defaultFlags) (flagRepoDir defaultFlags)
        [teamA_legacy, teamA_svc, teamA_svc] (flagRevision defaultFlags))))"
proof -
  have s: "servesGroups pagedClient 0 [''teamA'', ''shared'']
             [[[teamA_svc], [teamA_legacy]], [[teamA_svc]]]"
    by (simp add: groupPage_def pagedClient_def)
  have l: "loadRepos defaultFlags pagedClient [''teamA'', ''shared''] =
             Some (Inr [teamA_svc, teamA_legacy, teamA_svc])"
    using loadRepos_groups_serves [OF s, of "[]"] by (simp add: loadRepos_def)
  have f: "filterRepos [teamA_svc, teamA_legacy, teamA_svc] None
             (\<not> flagForks defaultFlags) (\<not> flagArchived defaultFlags) =
           [teamA_svc, teamA_legacy, teamA_svc]"
    by (simp add: filterRepos_filter isExcludedFork_def isIgnored_def defaultFlags_def)
  have a: "ascending ReposByName_Less [teamA_legacy, teamA_svc, teamA_svc]"
    by (simp add: ascending_def ReposByName_Less_def teamA_legacy_def teamA_svc_def)
  have p: "map Path (Repositories (buildConfig_cfg exampleWorld defaultFlags
             (flagName defaultFlags) (flagRepoDir defaultFlags)
             [teamA_legacy, teamA_svc, teamA_svc] (flagRevision defaultFlags))) =
           [''repos/teamA/legacy'', ''repos/teamA/svc'', ''repos/teamA/svc'']"
    by (simp add: buildConfig_cfg_eq keptRepos_all repoSpecOf_def defaultFlags_def
          teamA_legacy_def teamA_svc_def path_Join_def path_Clean_def)
  show ?thesis
    unfolding p using l f a by simp
qed

subsection \<open>The credential and the serialized specification\<close>

text \<open>
  \<^verbatim>\<open>strings.Contains(s, substr)\<close>: some suffix of \<open>s\<close> begins with \<open>substr\<close>.
\<close>

fun strings_HasPrefix :: "string \<Rightarrow> string \<Rightarrow> bool" where
  "strings_HasPrefix s [] = True"
| "strings_HasPrefix [] (c # p) = False"
| "strings_HasPrefix (a # s) (c # p) = (a = c \<and> strings_HasPrefix s p)"

fun strings_Contains :: "string \<Rightarrow> string \<Rightarrow> bool" where
  "strings_Contains [] substr = (substr = [])"
| "strings_Contains (a # s) substr =
     (strings_HasPrefix (a # s) substr \<or> strings_Contains s substr)"

lemma strings_HasPrefix_iff: "strings_HasPrefix s p \<longleftrightarrow> (\<exists>post. s = p @ post)"
  by (induction s p rule: strings_HasPrefix.induct) auto

lemma strings_Contains_iff:
  "strings_Contains s substr \<longleftrightarrow> (\<exists>pre post. s = pre @ substr @ post)"
proof (induction s)
  case Nil
  show ?case by auto
next
  case (Cons a s)
  show ?case
  proof
    assume "strings_Contains (a # s) substr"
    then consider "strings_HasPrefix (a # s) substr" | "strings_Contains s substr"
      by auto
    then show "\<exists>pre post. a # s = pre @ substr @ post"
    proof cases
      case 1
      then obtain post where "a # s = [] @ substr @ post"
        by (auto simp: strings_HasPrefix_iff)
      then show ?thesis by blast
    next
      case 2
      with Cons.IH obtain pre post where "s = pre @ substr @ post"
        by auto
      then have "a # s = (a # pre) @ substr @ post"
        by simp
      then show ?thesis by blast
    qed
  next
    assume "\<exists>pre post. a # s = pre @ substr @ post"
    then obtain pre post where eq: "a # s = pre @ substr @ post"
      by auto
    show "strings_Contains (a # s) substr"
    proof (cases pre)
      case Nil
      with eq have "strings_HasPrefix (a # s) substr"
        by (auto simp: strings_HasPrefix_iff)
      then show ?thesis by simp
    next
      case (Cons b pre')
      with eq have "s = pre' @ substr @ post"
        by simp
      with Cons.IH have "strings_Contains s substr"
        by blast
      then show ?thesis by simp
    qed
  qed
qed

lemma keptRepos_token:
  "keptRepos w (fl\<lparr>flagGitlabToken := token\<rparr>) dir revision runs repos =
   keptRepos w fl dir revision runs repos"
  by (induction repos arbitrary: runs) simp_all

lemma buildConfig_loop_token:
  assumes "flagGitlabToken fl \<noteq> ''''" and "token \<noteq> ''''"
  shows "buildConfig_loop w (fl\<lparr>flagGitlabToken := token\<rparr>) dir repos revision (cfg, logged, runs) =
         buildConfig_loop w fl dir repos revision (cfg, logged, runs)"
proof (induction repos arbitrary: cfg logged runs)
  case Nil
  show ?case by simp
next
  case (Cons r repos)
  show ?case
    using assms by (simp add: Cons.IH)
qed

text \<open>
  Claim C3, as amended. Every \<open>RepoSpec\<close> has \<open>CloneOptions\<close> whose \<open>PasswordEnv\<close> is
  \<^verbatim>\<open>GITLAB_TOKEN\<close> when a token is configured and empty when none is. The value of a
  configured token does not reach the output: with any other non-empty token in its
  place, and everything else the same, \<^verbatim>\<open>buildConfig\<close> returns the same bytes (or the
  same error), builds the same specification and logs the same lines, whatever
  \<^verbatim>\<open>json.MarshalIndent\<close> writes for a specification.
\<close>

theorem buildConfig_token:
  "(flagGitlabToken fl \<noteq> '''' \<longrightarrow>
      map (\<lambda>s. map_option PasswordEnv (RepoSpec.CloneOptions s))
        (Repositories (buildConfig_cfg w fl name dir repos revision)) =
      map (\<lambda>r. Some ''GITLAB_TOKEN'') (keptRepos w fl dir revision 0 repos))
   \<and> (flagGitlabToken fl = '''' \<longrightarrow>
      map (\<lambda>s. map_option PasswordEnv (RepoSpec.CloneOptions s))
        (Repositories (buildConfig_cfg w fl name dir repos revision)) =
      map (\<lambda>r. Some '''') (keptRepos w fl dir revision 0 repos))
   \<and> (flagGitlabToken fl \<noteq> '''' \<and> token \<noteq> '''' \<longrightarrow>
      buildConfig w (fl\<lparr>flagGitlabToken := token\<rparr>) name dir repos revision =
        buildConfig w fl name dir repos revision
      \<and> buildConfig_run w (fl\<lparr>flagGitlabToken := token\<rparr>) name dir repos revision =
        buildConfig_run w fl name dir repos revision)"
proof (intro conjI impI)
  assume "flagGitlabToken fl \<noteq> ''''"
  then show "map (\<lambda>s. map_option PasswordEnv (RepoSpec.CloneOptions s))
        (Repositories (buildConfig_cfg w fl name dir repos revision)) =
      map (\<lambda>r. Some ''GITLAB_TOKEN'') (keptRepos w fl dir revision 0 repos)"
    by (simp add: buildConfig_cfg_eq repoSpecOf_def comp_def)
next
  assume "flagGitlabToken fl = ''''"
  then show "map (\<lambda>s. map_option PasswordEnv (RepoSpec.CloneOptions s))
        (Repositories (buildConfig_cfg w fl name dir repos revision)) =
      map (\<lambda>r. Some '''') (keptRepos w fl dir revision 0 repos)"
    by (simp add: buildConfig_cfg_eq repoSpecOf_def comp_def)
next
  assume a: "flagGitlabToken fl \<noteq> '''' \<and> token \<noteq> ''''"
  then show run: "buildConfig_run w (fl\<lparr>flagGitlabToken := token\<rparr>) name dir repos revision =
        buildConfig_run w fl name dir repos revision"
    by (simp add: buildConfig_run_def buildConfig_loop_token)
  then show "buildConfig w (fl\<lparr>flagGitlabToken := token\<rparr>) name dir repos revision =
        buildConfig w fl name dir repos revision"
    by (simp add: buildConfig_def buildConfig_cfg_def)
qed

theorem buildConfig_token_witness:
  "map (\<lambda>s. map_option PasswordEnv (RepoSpec.CloneOptions s))
     (Repositories (buildConfig_cfg exampleWorld (defaultFlags\<lparr>flagGitlabToken := ''glpat-s3cr3t''\<rparr>)
        ''livegrep index'' ''repos'' [teamA_legacy, teamA_svc] ''HEAD'')) =
     [Some ''GITLAB_TOKEN'', Some ''GITLAB_TOKEN'']
   \<and> map (\<lambda>s. map_option PasswordEnv (RepoSpec.CloneOptions s))
     (Repositories (buildConfig_cfg exampleWorld defaultFlags
        ''livegrep index'' ''repos'' [teamA_legacy, teamA_svc] ''HEAD'')) =
     [Some '''', Some '''']
   \<and> buildConfig exampleWorld (defaultFlags\<lparr>flagGitlabToken := ''glpat-0ther''\<rparr>)
        ''livegrep index'' ''repos'' [teamA_legacy, teamA_svc] ''HEAD'' =
     buildConfig exampleWorld (defaultFlags\<lparr>flagGitlabToken := ''glpat-s3cr3t''\<rparr>)
        ''livegrep index'' ''repos'' [teamA_legacy, teamA_svc] ''HEAD''"
proof -
  have k1: "keptRepos exampleWorld (defaultFlags\<lparr>flagGitlabToken := ''glpat-s3cr3t''\<rparr>)
              ''repos'' ''HEAD'' 0 [teamA_legacy, teamA_svc] = [teamA_legacy, teamA_svc]"
    by (simp add: keptRepos_all defaultFlags_def)
  have k2: "keptRepos exampleWorld defaultFlags ''repos'' ''HEAD'' 0 [teamA_legacy, teamA_svc] =
              [teamA_legacy, teamA_svc]"
    by (simp add: keptRepos_all defaultFlags_def)
  have t: "flagGitlabToken (defaultFlags\<lparr>flagGitlabToken := ''glpat-s3cr3t''\<rparr>) \<noteq> ''''"
    and n: "flagGitlabToken defaultFlags = ''''"
    by (simp_all add: defaultFlags_def)
  show ?thesis
    using t n
      buildConfig_token [of "defaultFlags\<lparr>flagGitlabToken := ''glpat-s3cr3t''\<rparr>" exampleWorld
        "''livegrep index''" "''repos''" "[teamA_legacy, teamA_svc]" "''HEAD''" "''glpat-0ther''"]
      buildConfig_token [of defaultFlags exampleWorld
        "''livegrep index''" "''repos''" "[teamA_legacy, teamA_svc]" "''HEAD''"]
    unfolding k1 k2 by simp
qed

text \<open>
  Claim C3 as stated fails, because the bytes may spell the token for another reason:
  when the token is \<^verbatim>\<open>GITLAB_TOKEN\<close>, it is the \<open>PasswordEnv\<close> of every \<open>RepoSpec\<close> and
  the serialized specification contains it.
\<close>

theorem token_named_like_variable_counterexample:
  "flagGitlabToken (defaultFlags\<lparr>flagGitlabToken := ''GITLAB_TOKEN''\<rparr>) \<noteq> ''''
   \<and> map (\<lambda>s. map_option PasswordEnv (RepoSpec.CloneOptions s))
     (Repositories (buildConfig_cfg exampleWorld (defaultFlags\<lparr>flagGitlabToken := ''GITLAB_TOKEN''\<rparr>)
        ''livegrep index'' ''repos'' [teamA_svc] ''HEAD'')) =
     [Some (flagGitlabToken (defaultFlags\<lparr>flagGitlabToken := ''GITLAB_TOKEN''\<rparr>))]
   \<and> (case buildConfig exampleWorld (defaultFlags\<lparr>flagGitlabToken := ''GITLAB_TOKEN''\<rparr>)
            ''livegrep index'' ''repos'' [teamA_svc] ''HEAD'' of
        Inl err \<Rightarrow> False
      | Inr config \<Rightarrow> strings_Contains config ''GITLAB_TOKEN'')"
proof -
  have cfg: "buildConfig_cfg exampleWorld (defaultFlags\<lparr>flagGitlabToken := ''GITLAB_TOKEN''\<rparr>)
               ''livegrep index'' ''repos'' [teamA_svc] ''HEAD'' =
             \<lparr>IndexSpec.Name = ''livegrep index'',
              Repositories = [\<lparr>Path = ''repos/teamA/svc'', RepoSpec.Name = ''teamA/svc'',
                Revisions = [''HEAD''],
                Metadata = Some \<lparr>Github = ''https://gitlab.example.com/teamA/svc'',
                  Remote = ''git@gitlab.example.com:teamA/svc.git'',
                  UrlPattern = ''https://gitlab.com/{name}/-/blob/{version}/{path}#L{lno}''\<rparr>,
                CloneOptions = Some \<lparr>Depth = 0, Username = ''git'',
                  PasswordEnv = ''GITLAB_TOKEN''\<rparr>\<rparr>]\<rparr>"
    by (simp add: buildConfig_cfg_eq keptRepos_all repoSpecOf_def defaultFlags_def
          teamA_svc_def path_Join_def path_Clean_def)
  have bytes: "strings_Contains
      (json_IndexSpec
         \<lparr>IndexSpec.Name = ''livegrep index'',
          Repositories = [\<lparr>Path = ''repos/teamA/svc'', RepoSpec.Name = ''teamA/svc'',
            Revisions = [''HEAD''],
            Metadata = Some \<lparr>Github = ''https://gitlab.example.com/teamA/svc'',
              Remote = ''git@gitlab.example.com:teamA/svc.git'',
              UrlPattern = ''https://gitlab.com/{name}/-/blob/{version}/{path}#L{lno}''\<rparr>,
            CloneOptions = Some \<lparr>Depth = 0, Username = ''git'',
              PasswordEnv = ''GITLAB_TOKEN''\<rparr>\<rparr>]\<rparr>)
      ''GITLAB_TOKEN''"
    by code_simp
  show ?thesis
    using bytes by (simp add: buildConfig_def cfg) (simp add: exampleWorld_def defaultFlags_def)
qed

end
